theory Spec2Isabelle
  imports Main "HOL-Library.Sublist" "HOL-Library.Multiset"
begin

section \<open>Strings and the regular expressions of the script\<close>

text \<open>
  A Python \<open>str\<close> is a sequence of code points. It is modelled as a \<open>string\<close>, each
  \<open>char\<close> being the code point of that number (0 to 255); code points above 255 are not
  in this type. The two character classes the script uses are the ones of Python's
  \<open>re\<close> module on \<open>str\<close> patterns, restricted to this range: \<open>\d\<close> is a decimal digit,
  \<open>\w\<close> is an alphanumeric character or the underscore.
\<close>

definition is_digit :: "char \<Rightarrow> bool" where
  "is_digit c = (let n = (of_char c :: nat) in 48 \<le> n \<and> n \<le> 57)"

definition is_word :: "char \<Rightarrow> bool" where
  "is_word c =
     (let n = (of_char c :: nat) in
        (48 \<le> n \<and> n \<le> 57) \<or> (65 \<le> n \<and> n \<le> 90) \<or> n = 95 \<or> (97 \<le> n \<and> n \<le> 122) \<or>
        n = 170 \<or> n = 178 \<or> n = 179 \<or> n = 181 \<or> n = 185 \<or> n = 186 \<or>
        (188 \<le> n \<and> n \<le> 190) \<or> (192 \<le> n \<and> n \<le> 214) \<or> (216 \<le> n \<and> n \<le> 246) \<or>
        (248 \<le> n \<and> n \<le> 255))"

text \<open>
  The fragment of the pattern language that the two patterns of the script are written
  in: a literal character, \<open>\w\<close> or \<open>\d\<close>; one such character, a greedy \<open>+\<close> of it, a
  captured greedy \<open>+\<close> (a group \<open>(\w+)\<close>), and \<open>$\<close>.
\<close>

datatype cclass = Lit char | Word | Digit

datatype token = One cclass | Plus cclass | Cap cclass | Dollar

fun in_class :: "cclass \<Rightarrow> char \<Rightarrow> bool" where
  "in_class (Lit l) c = (c = l)"
| "in_class Word c = is_word c"
| "in_class Digit c = is_digit c"

text \<open>
  The matcher is the backtracking one of \<open>re\<close>: \<open>re_here\<close> matches the pattern at the
  start of the text and returns the captured groups of the first successful path, a
  greedy \<open>+\<close> trying the longest run first and giving characters back one at a time
  (\<open>re_plus\<close>). \<open>$\<close> matches at the end of the text and just before a newline that is
  the last character.
\<close>

fun re_here :: "token list \<Rightarrow> string \<Rightarrow> string list option"
  and re_plus :: "cclass \<Rightarrow> bool \<Rightarrow> token list \<Rightarrow> string \<Rightarrow> nat \<Rightarrow> string list option"
where
  "re_here [] s = Some []"
| "re_here (One c # ts) s =
     (case s of [] \<Rightarrow> None | x # xs \<Rightarrow> if in_class c x then re_here ts xs else None)"
| "re_here (Dollar # ts) s = (if s = [] \<or> s = [CHR 0x0A] then re_here ts s else None)"
| "re_here (Plus c # ts) s = re_plus c False ts s (length (takeWhile (in_class c) s))"
| "re_here (Cap c # ts) s = re_plus c True ts s (length (takeWhile (in_class c) s))"
| "re_plus c cap ts s 0 = None"
| "re_plus c cap ts s (Suc n) =
     (case re_here ts (drop (Suc n) s) of
        Some groups \<Rightarrow> Some (if cap then take (Suc n) s # groups else groups)
      | None \<Rightarrow> re_plus c cap ts s n)"

text \<open>\<open>pattern.match(s)\<close>: a match at position 0. \<open>re.search(pattern, s)\<close>: the first
  position, from the left, at which the pattern matches.\<close>

definition re_match :: "token list \<Rightarrow> string \<Rightarrow> string list option" where
  "re_match pat s = re_here pat s"

fun re_search :: "token list \<Rightarrow> string \<Rightarrow> string list option" where
  "re_search pat [] = re_here pat []"
| "re_search pat (c # cs) =
     (case re_here pat (c # cs) of Some groups \<Rightarrow> Some groups | None \<Rightarrow> re_search pat cs)"

definition lits :: "string \<Rightarrow> token list" where
  "lits s = map (\<lambda>c. One (Lit c)) s"

text \<open>The pattern of \<open>extract_valid_links\<close>: \<^verbatim>\<open>https://x\.com/\w+/status/\d+$\<close>.\<close>

definition regex :: "token list" where
  "regex = lits ''https://x.com/'' @ [Plus Word] @ lits ''/status/'' @ [Plus Digit, Dollar]"

text \<open>The pattern of \<open>extract_username_from_url\<close>: \<^verbatim>\<open>https://x\.com/(\w+)/status/\d+\<close>.\<close>

definition username_regex :: "token list" where
  "username_regex = lits ''https://x.com/'' @ [Cap Word] @ lits ''/status/'' @ [Plus Digit]"

section \<open>Python values and exceptions\<close>

text \<open>
  The values a decoded payload is made of. A \<open>dict\<close> with \<open>str\<close> keys is an association
  list read with \<open>map_of\<close>; a float is kept as its literal.
\<close>

datatype jvalue =
    JNull | JBool bool | JInt int | JFloat string | JStr string
  | JArr "jvalue list" | JObj "(string \<times> jvalue) list"

type_synonym pydict = "(string \<times> jvalue) list"

text \<open>
  The exceptions (instances of \<open>Exception\<close>) that the script can meet: the ones its own
  expressions raise, and \<open>Raised msg\<close> for any exception raised by the browser, by the
  decoding of a payload or by the reading of a file, \<open>msg\<close> being its \<open>str()\<close>.
\<close>

datatype exn = KeyError string | TypeError string | AttributeError string
  | IndexError string | Raised string

definition quoted :: "string \<Rightarrow> string" where
  "quoted s = [CHR 0x27] @ s @ [CHR 0x27]"

fun str_exn :: "exn \<Rightarrow> string" where
  "str_exn (KeyError k) = quoted k"
| "str_exn (TypeError msg) = msg"
| "str_exn (AttributeError msg) = msg"
| "str_exn (IndexError msg) = msg"
| "str_exn (Raised msg) = msg"

fun type_name :: "jvalue \<Rightarrow> string" where
  "type_name JNull = ''NoneType''"
| "type_name (JBool _) = ''bool''"
| "type_name (JInt _) = ''int''"
| "type_name (JFloat _) = ''float''"
| "type_name (JStr _) = ''str''"
| "type_name (JArr _) = ''list''"
| "type_name (JObj _) = ''dict''"

text \<open>\<open>v[k]\<close> for a \<open>str\<close> key \<open>k\<close>.\<close>

fun getitem :: "jvalue \<Rightarrow> string \<Rightarrow> exn + jvalue" where
  "getitem (JObj d) k = (case map_of d k of None \<Rightarrow> Inl (KeyError k) | Some v \<Rightarrow> Inr v)"
| "getitem (JArr _) k = Inl (TypeError ''list indices must be integers or slices, not str'')"
| "getitem (JStr _) k = Inl (TypeError (''string indices must be integers, not '' @ quoted ''str''))"
| "getitem v k = Inl (TypeError (quoted (type_name v) @ '' object is not subscriptable''))"

text \<open>\<open>d.get(k, default)\<close> on a \<open>dict\<close>, and \<open>v.get(k, default)\<close> on any value.\<close>

definition dict_get :: "pydict \<Rightarrow> string \<Rightarrow> jvalue \<Rightarrow> jvalue" where
  "dict_get d k dflt = (case map_of d k of None \<Rightarrow> dflt | Some v \<Rightarrow> v)"

fun py_get :: "jvalue \<Rightarrow> string \<Rightarrow> jvalue \<Rightarrow> exn + jvalue" where
  "py_get (JObj d) k dflt = Inr (dict_get d k dflt)"
| "py_get v k dflt =
     Inl (AttributeError (quoted (type_name v) @ '' object has no attribute '' @ quoted ''get''))"

definition bind :: "exn + 'a \<Rightarrow> ('a \<Rightarrow> exn + 'b) \<Rightarrow> exn + 'b" where
  "bind m f = (case m of Inl e \<Rightarrow> Inl e | Inr x \<Rightarrow> f x)"

text \<open>\<open>match.group(n)\<close> for \<open>n \<ge> 1\<close>, on the captured groups of a match.\<close>

definition group :: "string list \<Rightarrow> nat \<Rightarrow> exn + string" where
  "group groups n =
     (if 1 \<le> n \<and> n \<le> length groups then Inr (groups ! (n - 1)) else Inl (IndexError ''no such group''))"

text \<open>\<open>needle in hay\<close> on strings.\<close>

fun str_contains :: "string \<Rightarrow> string \<Rightarrow> bool" where
  "str_contains needle [] = (needle = [])"
| "str_contains needle (c # cs) = (prefix needle (c # cs) \<or> str_contains needle cs)"

section \<open>Files as the rows of their CSV reader and writer\<close>

text \<open>
  A CSV file is modelled by its rows, each the list of its cells: what \<open>csv.reader\<close>
  yields and what \<open>writerow\<close> is given. A writer is its delimiter and the rows written
  so far.
\<close>

record 'a csv_writer =
  delimiter :: char
  written :: "'a list list"

definition writer :: "char \<Rightarrow> 'a csv_writer" where
  "writer d = \<lparr>delimiter = d, written = []\<rparr>"

definition writerow :: "'a csv_writer \<Rightarrow> 'a list \<Rightarrow> 'a csv_writer" where
  "writerow w row = w\<lparr>written := written w @ [row]\<rparr>"

subsection \<open>\<open>extract_valid_links\<close>\<close>

text \<open>The two nested loops, over rows that the reader has yielded and over the cells of
  each row; the writer is \<open>csv.writer(outfile)\<close>, whose delimiter is the comma.\<close>

definition extract_valid_links :: "string list list \<Rightarrow> string csv_writer" where
  "extract_valid_links csv_reader =
     foldl (\<lambda>csv_writer row.
              foldl (\<lambda>csv_writer link.
                       if re_match regex link \<noteq> None then writerow csv_writer [link]
                       else csv_writer)
                    csv_writer row)
           (writer CHR '','') csv_reader"




subsection \<open>\<open>get_links_from_csv\<close>\<close>

definition get_links_from_csv :: "string list list \<Rightarrow> string list" where
  "get_links_from_csv csv_reader = foldl (\<lambda>links row. links @ row) [] csv_reader"

section \<open>Scraping\<close>

subsection \<open>\<open>extract_username_from_url\<close>\<close>

definition extract_username_from_url :: "string \<Rightarrow> exn + string" where
  "extract_username_from_url url =
     (case re_search username_regex url of
        Some groups \<Rightarrow> group groups 1
      | None \<Rightarrow> Inr ''N/A'')"

subsection \<open>\<open>scrape_tweet_metadata\<close>\<close>

text \<open>
  A response the page receives: the resource type of its request, its address, and what
  its \<open>json()\<close> gives (the decoded payload, or the exception of the decoder).
\<close>

record response =
  rsp_resource_type :: string
  rsp_url :: string
  rsp_json :: "exn + jvalue"

text \<open>
  The browser is outside the script. One page visit (launching the browser,
  \<open>page.goto\<close>, \<open>page.wait_for_selector\<close>) is modelled by its outcome: the exception it
  raised, or the responses the page received, in the order they arrived; both waits have
  a timeout, so a visit ends.
\<close>

type_synonym page_visit = "exn + response list"

definition intercept_response :: "response list \<Rightarrow> response \<Rightarrow> response list" where
  "intercept_response xhr_calls response =
     (if rsp_resource_type response = ''xhr'' then xhr_calls @ [response] else xhr_calls)"

definition NA :: jvalue where
  "NA = JStr ''N/A''"

text \<open>The body of the loop over \<open>tweet_calls\<close>, which returns in its first iteration.\<close>

definition tweet_metadata :: "string \<Rightarrow> response \<Rightarrow> exn + pydict" where
  "tweet_metadata username xhr =
     bind (rsp_json xhr) (\<lambda>data.
     bind (getitem data ''data'') (\<lambda>d1.
     bind (getitem d1 ''tweetResult'') (\<lambda>d2.
     bind (getitem d2 ''result'') (\<lambda>d3.
     bind (getitem d3 ''legacy'') (\<lambda>result.
     bind (py_get result ''full_text'' NA) (\<lambda>text.
     bind (py_get result ''created_at'' NA) (\<lambda>date.
     bind (py_get result ''reply_count'' NA) (\<lambda>comment_count.
     bind (py_get result ''favorite_count'' NA) (\<lambda>like_count.
     bind (py_get result ''retweet_count'' NA) (\<lambda>share_count.
       Inr [(''text'', text),
            (''username'', JStr username),
            (''date'', date),
            (''comment_count'', comment_count),
            (''like_count'', like_count),
            (''share_count'', share_count)]))))))))))"

definition default_metadata :: "string \<Rightarrow> pydict" where
  "default_metadata username =
     [(''text'', NA),
      (''username'', JStr username),
      (''date'', NA),
      (''comment_count'', NA),
      (''like_count'', NA),
      (''share_count'', NA)]"

definition scrape_tweet_metadata :: "string \<Rightarrow> page_visit \<Rightarrow> exn + pydict" where
  "scrape_tweet_metadata url page =
     bind (extract_username_from_url url) (\<lambda>username.
     bind page (\<lambda>responses.
       let xhr_calls = foldl intercept_response [] responses;
           tweet_calls = filter (\<lambda>f. str_contains ''TweetResultByRestId'' (rsp_url f)) xhr_calls
       in case tweet_calls of
            xhr # _ \<Rightarrow> tweet_metadata username xhr
          | [] \<Rightarrow> Inr (default_metadata username)))"

subsection \<open>\<open>save_results_to_csv\<close>\<close>

definition header :: "jvalue list" where
  "header = map JStr [''Link'', ''Text'', ''Username'', ''Date'', ''Comment Count'',
                      ''Like Count'', ''Share Count'']"

definition result_row :: "string \<times> pydict \<Rightarrow> jvalue list" where
  "result_row r =
     (case r of (link, metadata) \<Rightarrow>
        [JStr link,
         dict_get metadata ''text'' NA,
         dict_get metadata ''username'' NA,
         dict_get metadata ''date'' NA,
         dict_get metadata ''comment_count'' NA,
         dict_get metadata ''like_count'' NA,
         dict_get metadata ''share_count'' NA])"

definition save_results_to_csv :: "(string \<times> pydict) list \<Rightarrow> jvalue csv_writer" where
  "save_results_to_csv results =
     foldl (\<lambda>csv_writer r. writerow csv_writer (result_row r))
           (writerow (writer CHR '';'') header) results"

section \<open>The orchestrator\<close>

text \<open>
  A future is its identity (the number of its submission) and the outcome of its task.
  The pool's scheduling is outside the script: \<open>as_completed\<close> yields every future it is
  given once, in an order the schedule decides. The schedule is a list of picks, each
  choosing among the futures still pending; when it is exhausted the remaining futures
  complete in the order of submission.
\<close>

type_synonym future = "nat \<times> (exn + pydict)"

function as_completed :: "'a list \<Rightarrow> nat list \<Rightarrow> 'a list" where
  "as_completed pending sched =
     (if pending = [] then []
      else case sched of
             [] \<Rightarrow> pending
           | k # sched' \<Rightarrow>
               (let i = k mod length pending
                in pending ! i # as_completed (take i pending @ drop (Suc i) pending) sched'))"
  by pat_completeness auto
termination
proof (relation "measure (\<lambda>(pending, sched). length pending)")
  show "wf (measure (\<lambda>(pending :: 'a list, sched :: nat list). length pending))"
    by simp
next
  fix pending :: "'a list" and sched sched' :: "nat list" and k i :: nat
  assume "pending \<noteq> []" and "i = k mod length pending"
  then have "i < length pending"
    by simp
  then show "((take i pending @ drop (Suc i) pending, sched'), pending, sched)
             \<in> measure (\<lambda>(pending, sched). length pending)"
    by simp
qed

declare as_completed.simps [simp del]

text \<open>\<open>executor.submit(scrape_tweet_metadata, link)\<close>, the browser giving the page visit
  of that task.\<close>

definition submit :: "(nat \<Rightarrow> string \<Rightarrow> page_visit) \<Rightarrow> nat \<Rightarrow> string \<Rightarrow> future" where
  "submit browser i link = (i, scrape_tweet_metadata link (browser i link))"

definition submit_all :: "(nat \<Rightarrow> string \<Rightarrow> page_visit) \<Rightarrow> string list \<Rightarrow> (future \<times> string) list" where
  "submit_all browser links = map (\<lambda>(i, link). (submit browser i link, link)) (enumerate 0 links)"

text \<open>\<open>future.result()\<close> returns the value of the task or raises its exception.\<close>

definition outcome :: "exn + pydict \<Rightarrow> pydict" where
  "outcome r =
     (case r of
        Inr metadata \<Rightarrow> if metadata \<noteq> [] then metadata else [(''error'', JStr ''Could not scrape'')]
      | Inl e \<Rightarrow> [(''error'', JStr (''Error: '' @ str_exn e))])"

text \<open>The loop over the completed futures. The lookup \<open>future_to_link[future]\<close> is
  outside the \<open>try\<close>: a missing key would leave the function.\<close>

fun collect :: "(future \<times> string) list \<Rightarrow> future list \<Rightarrow> (string \<times> pydict) list
    \<Rightarrow> exn + (string \<times> pydict) list" where
  "collect future_to_link [] results = Inr results"
| "collect future_to_link (future # rest) results =
     (case map_of future_to_link future of
        None \<Rightarrow> Inl (KeyError ''Future'')
      | Some link \<Rightarrow> collect future_to_link rest (results @ [(link, outcome (snd future))]))"

definition scrape_all_tweets ::
    "(nat \<Rightarrow> string \<Rightarrow> page_visit) \<Rightarrow> nat list \<Rightarrow> string list \<Rightarrow> exn + (string \<times> pydict) list" where
  "scrape_all_tweets browser sched links =
     (let future_to_link = submit_all browser links
      in collect future_to_link (as_completed (map fst future_to_link) sched) [])"

section \<open>Notions used in the statements\<close>

text \<open>
  A tweet address in the words of the specification: the host, a non-empty run of \<open>\w\<close>
  characters, \<open>/status/\<close> and a non-empty run of digits. \<open>anchored_tweet_url s\<close> says that
  \<open>s\<close> is such an address from its first to its last character; \<open>tweet_url_at url p u\<close>
  says that one with the user name \<open>u\<close> starts at position \<open>p\<close> of \<open>url\<close>.
\<close>

definition anchored_tweet_url :: "string \<Rightarrow> bool" where
  "anchored_tweet_url s \<longleftrightarrow>
     (\<exists>u d. s = ''https://x.com/'' @ u @ ''/status/'' @ d \<and>
            u \<noteq> [] \<and> list_all is_word u \<and> d \<noteq> [] \<and> list_all is_digit d)"

definition tweet_url_at :: "string \<Rightarrow> nat \<Rightarrow> string \<Rightarrow> bool" where
  "tweet_url_at url p u \<longleftrightarrow>
     (\<exists>d rest. drop p url = ''https://x.com/'' @ u @ ''/status/'' @ d @ rest \<and>
               u \<noteq> [] \<and> list_all is_word u \<and> d \<noteq> [] \<and> list_all is_digit d)"




text \<open>The keys of a metadata record, and the test of \<open>tweet_calls\<close>.\<close>

definition metadata_keys :: "string list" where
  "metadata_keys = [''text'', ''username'', ''date'', ''comment_count'', ''like_count'', ''share_count'']"

definition has_marker :: "response \<Rightarrow> bool" where
  "has_marker f = str_contains ''TweetResultByRestId'' (rsp_url f)"

text \<open>
  The entry that the orchestrator records for the task of number \<open>j\<close>, and the order in
  which the tasks of \<open>n\<close> links complete under a schedule.
\<close>

definition entry :: "(nat \<Rightarrow> string \<Rightarrow> page_visit) \<Rightarrow> string list \<Rightarrow> nat \<Rightarrow> string \<times> pydict" where
  "entry browser links j = (links ! j, outcome (scrape_tweet_metadata (links ! j) (browser j (links ! j))))"

definition completion_order :: "nat list \<Rightarrow> nat \<Rightarrow> nat list" where
  "completion_order sched n = as_completed [0..<n] sched"

section \<open>The patterns in closed form\<close>

lemma slash_not_word: "\<not> is_word CHR ''/''"
  by (simp add: is_word_def)

lemma newline_not_digit: "\<not> is_digit (CHR 0x0A)"
  by (simp add: is_digit_def)

lemma re_here_lits:
  "re_here (lits p @ ts) s = (if prefix p s then re_here ts (drop (length p) s) else None)"
  by (induction p arbitrary: s) (auto simp: lits_def split: list.splits)

lemma re_plus_all_fail:
  "(\<And>k. 0 < k \<Longrightarrow> k \<le> n \<Longrightarrow> re_here ts (drop k s) = None) \<Longrightarrow> re_plus c cap ts s n = None"
  by (induction n) simp_all

lemma re_plus_longest:
  assumes "\<And>k. 0 < k \<Longrightarrow> k < n \<Longrightarrow> re_here ts (drop k s) = None"
  shows "re_plus c cap ts s n =
         (if n = 0 then None
          else case re_here ts (drop n s) of
                 Some groups \<Rightarrow> Some (if cap then take n s # groups else groups)
               | None \<Rightarrow> None)"
proof (cases n)
  case 0
  then show ?thesis by simp
next
  case (Suc m)
  have "re_plus c cap ts s m = None"
    using assms Suc by (intro re_plus_all_fail) simp
  then show ?thesis
    using Suc by (simp split: option.splits)
qed

lemma in_run:
  assumes "k < length (takeWhile P s)"
  shows "\<exists>r. drop k s = s ! k # r \<and> P (s ! k)"
proof -
  have k: "k < length s"
    using assms length_takeWhile_le[of P s] by simp
  have "takeWhile P s ! k \<in> set (takeWhile P s)"
    using assms by simp
  then have "P (takeWhile P s ! k)"
    by (rule set_takeWhileD[THEN conjunct2])
  then have "P (s ! k)"
    using assms by (simp add: takeWhile_nth)
  moreover have "drop k s = s ! k # drop (Suc k) s"
    using k by (simp add: Cons_nth_drop_Suc)
  ultimately show ?thesis by blast
qed

lemma re_plus_run:
  assumes "\<And>x r. in_class c x \<Longrightarrow> re_here ts (x # r) = None"
  shows "re_plus c cap ts s (length (takeWhile (in_class c) s)) =
         (if takeWhile (in_class c) s = [] then None
          else case re_here ts (dropWhile (in_class c) s) of
                 Some groups \<Rightarrow> Some (if cap then takeWhile (in_class c) s # groups else groups)
               | None \<Rightarrow> None)"
proof -
  have "re_here ts (drop k s) = None" if "k < length (takeWhile (in_class c) s)" for k
    using in_run[OF that] assms by auto
  moreover have "take (length (takeWhile (in_class c) s)) s = takeWhile (in_class c) s"
    by (simp add: takeWhile_eq_take[symmetric])
  moreover have "drop (length (takeWhile (in_class c) s)) s = dropWhile (in_class c) s"
    by (simp add: dropWhile_eq_drop[symmetric])
  ultimately show ?thesis
    by (subst re_plus_longest) (simp_all split: option.splits)
qed

lemma re_plus_then_lits:
  assumes "\<not> in_class c l"
  shows "re_plus c cap (lits (l # q) @ ts) s (length (takeWhile (in_class c) s)) =
         (if takeWhile (in_class c) s \<noteq> [] \<and> prefix (l # q) (dropWhile (in_class c) s)
          then case re_here ts (drop (length (l # q)) (dropWhile (in_class c) s)) of
                 Some groups \<Rightarrow> Some (if cap then takeWhile (in_class c) s # groups else groups)
               | None \<Rightarrow> None
          else None)"
proof -
  have "re_here (lits (l # q) @ ts) (x # r) = None" if "in_class c x" for x r
    using that assms by (auto simp: lits_def)
  then show ?thesis
    by (subst re_plus_run) (simp_all only: re_here_lits split: if_splits, auto)
qed


lemma re_here_digits:
  "re_here [Plus Digit] s = (if takeWhile is_digit s \<noteq> [] then Some [] else None)"
proof -
  have "in_class Digit = is_digit"
    by (simp add: fun_eq_iff)
  then show ?thesis
    by (cases "takeWhile is_digit s") simp_all
qed

lemma takeWhile_run:
  assumes "list_all P u" and "\<not> P x"
  shows "takeWhile P (u @ x # r) = u" and "dropWhile P (u @ x # r) = x # r"
  using assms by (simp_all add: list_all_iff takeWhile_append2 dropWhile_append2)

lemma list_all_takeWhile: "list_all P (takeWhile P s)"
  by (auto simp: list_all_iff dest: set_takeWhileD)


lemma re_here_cap_word:
  "re_here (Cap Word # lits ''/status/'' @ ts) s =
     (if takeWhile is_word s \<noteq> [] \<and> prefix ''/status/'' (dropWhile is_word s)
      then case re_here ts (drop (length ''/status/'') (dropWhile is_word s)) of
             Some groups \<Rightarrow> Some (takeWhile is_word s # groups)
           | None \<Rightarrow> None
      else None)"
proof -
  have w: "in_class Word = is_word"
    by (simp add: fun_eq_iff)
  have "\<not> in_class Word CHR ''/''"
    by (simp add: slash_not_word)
  from re_plus_then_lits[OF this, of True "''status/''" ts s] show ?thesis
    by (simp add: w split: option.splits)
qed


lemma re_here_username_regex:
  "re_here username_regex s =
     (if prefix ''https://x.com/'' s \<and>
         takeWhile is_word (drop (length ''https://x.com/'') s) \<noteq> [] \<and>
         prefix ''/status/'' (dropWhile is_word (drop (length ''https://x.com/'') s)) \<and>
         takeWhile is_digit (drop (length ''/status/'')
            (dropWhile is_word (drop (length ''https://x.com/'') s))) \<noteq> []
      then Some [takeWhile is_word (drop (length ''https://x.com/'') s)] else None)"
  unfolding username_regex_def append_Cons append_Nil
  by (simp only: re_here_lits re_here_cap_word re_here_digits) auto

lemma run_compose:
  assumes "s = h @ u @ (l # q) @ t" and "list_all P u" and "\<not> P l"
  shows "prefix h s" and "takeWhile P (drop (length h) s) = u"
    and "dropWhile P (drop (length h) s) = (l # q) @ t"
  using assms takeWhile_run[OF assms(2,3), of "q @ t"] by simp_all



lemma re_here_username_regex_iff:
  "re_here username_regex (drop p url) = Some groups \<longleftrightarrow>
     (\<exists>u. groups = [u] \<and> tweet_url_at url p u)"
proof
  assume m: "re_here username_regex (drop p url) = Some groups"
  define s where "s = drop p url"
  define s1 where "s1 = drop (length ''https://x.com/'') s"
  define u where "u = takeWhile is_word s1"
  define r1 where "r1 = dropWhile is_word s1"
  define s3 where "s3 = drop (length ''/status/'') r1"
  define d where "d = takeWhile is_digit s3"
  define r3 where "r3 = dropWhile is_digit s3"
  from m have p: "prefix ''https://x.com/'' s" and u: "u \<noteq> []"
    and q: "prefix ''/status/'' r1" and d: "d \<noteq> []" and g: "groups = [u]"
    unfolding re_here_username_regex s_def s1_def u_def r1_def s3_def d_def r3_def
    by (auto split: if_splits)
  have s: "s = ''https://x.com/'' @ s1"
    using p by (auto simp: s1_def prefix_def)
  have r1: "r1 = ''/status/'' @ s3"
    using q by (auto simp: s3_def prefix_def)
  have "s1 = u @ r1"
    by (simp add: u_def r1_def)
  moreover have "s3 = d @ r3"
    by (simp add: d_def r3_def)
  ultimately have full: "s = ''https://x.com/'' @ u @ ''/status/'' @ d @ r3"
    using s r1 by simp
  have "tweet_url_at url p u"
    unfolding tweet_url_at_def
    using u d full by (intro exI[of _ d] exI[of _ r3]) (simp add: s_def u_def d_def list_all_takeWhile)
  then show "\<exists>u. groups = [u] \<and> tweet_url_at url p u"
    using g by blast
next
  assume "\<exists>u. groups = [u] \<and> tweet_url_at url p u"
  then obtain u d rest where g: "groups = [u]"
    and s: "drop p url = ''https://x.com/'' @ u @ ''/status/'' @ d @ rest"
    and u: "u \<noteq> []" "list_all is_word u" and d: "d \<noteq> []" "list_all is_digit d"
    unfolding tweet_url_at_def by blast
  note c = run_compose[OF s u(2) slash_not_word]
  have td: "takeWhile is_digit (d @ rest) \<noteq> []"
    using d by (cases d) (simp_all add: list_all_iff)
  show "re_here username_regex (drop p url) = Some groups"
    unfolding re_here_username_regex
    apply (simp only: c(2,3))
    using u(1) td c(1) g by simp
qed

lemma re_search_first:
  assumes "\<And>q. q < p \<Longrightarrow> re_here pat (drop q s) = None"
    and "re_here pat (drop p s) = Some groups" and "p \<le> length s"
  shows "re_search pat s = Some groups"
  using assms
proof (induction s arbitrary: p)
  case Nil
  then show ?case by simp
next
  case (Cons c cs)
  show ?case
  proof (cases p)
    case 0
    with Cons.prems(2) show ?thesis by simp
  next
    case (Suc p')
    have "re_here pat (c # cs) = None"
      using Cons.prems(1)[of 0] Suc by simp
    moreover have "re_search pat cs = Some groups"
    proof (rule Cons.IH[of p'])
      show "re_here pat (drop q cs) = None" if "q < p'" for q
        using Cons.prems(1)[of "Suc q"] that Suc by simp
      show "re_here pat (drop p' cs) = Some groups"
        using Cons.prems(2) Suc by simp
      show "p' \<le> length cs"
        using Cons.prems(3) Suc by simp
    qed
    ultimately show ?thesis by simp
  qed
qed

lemma re_search_none:
  assumes "\<And>q. q \<le> length s \<Longrightarrow> re_here pat (drop q s) = None"
  shows "re_search pat s = None"
  using assms
proof (induction s)
  case Nil
  then show ?case by simp
next
  case (Cons c cs)
  have "re_here pat (c # cs) = None"
    using Cons.prems[of 0] by simp
  moreover have "re_search pat cs = None"
  proof (rule Cons.IH)
    show "re_here pat (drop q cs) = None" if "q \<le> length cs" for q
      using Cons.prems[of "Suc q"] that by simp
  qed
  ultimately show ?case by simp
qed

lemma re_search_Some:
  "re_search pat s = Some groups \<Longrightarrow> \<exists>p \<le> length s. re_here pat (drop p s) = Some groups"
proof (induction s)
  case Nil
  then show ?case by simp
next
  case (Cons c cs)
  show ?case
  proof (cases "re_here pat (c # cs)")
    case None
    with Cons obtain p where "p \<le> length cs" "re_here pat (drop p cs) = Some groups"
      by auto
    then show ?thesis
      by (intro exI[of _ "Suc p"]) simp
  next
    case (Some g)
    with Cons.prems show ?thesis
      by (intro exI[of _ 0]) simp
  qed
qed

section \<open>The orchestrator, entry by entry\<close>

lemma as_completed_map: "as_completed (map f xs) sched = map f (as_completed xs sched)"
proof (induction xs sched rule: as_completed.induct)
  case (1 ps sched)
  show ?case
  proof (cases "ps = []")
    case True
    then show ?thesis by (simp add: as_completed.simps)
  next
    case False
    show ?thesis
    proof (cases sched)
      case Nil
      with False show ?thesis
        by (simp add: as_completed.simps[of "map f ps"] as_completed.simps[of ps])
    next
      case (Cons k sched')
      define i where "i = k mod length ps"
      have i: "i < length ps" using False by (simp add: i_def)
      have IH: "as_completed (map f (take i ps @ drop (Suc i) ps)) sched'
                = map f (as_completed (take i ps @ drop (Suc i) ps) sched')"
        using "1.IH" False Cons i_def by simp
      have L: "as_completed (map f ps) sched
               = map f ps ! i # as_completed (take i (map f ps) @ drop (Suc i) (map f ps)) sched'"
        using False Cons by (simp add: as_completed.simps[of "map f ps"] i_def Let_def)
      have R: "as_completed ps sched = ps ! i # as_completed (take i ps @ drop (Suc i) ps) sched'"
        using False Cons by (simp add: as_completed.simps[of ps] i_def Let_def)
      show ?thesis
        using i IH by (simp add: L R take_map drop_map)
    qed
  qed
qed

lemma mset_as_completed: "mset (as_completed xs sched) = mset xs"
proof (induction xs sched rule: as_completed.induct)
  case (1 ps sched)
  show ?case
  proof (cases "ps = []")
    case True
    then show ?thesis by (simp add: as_completed.simps)
  next
    case False
    show ?thesis
    proof (cases sched)
      case Nil
      with False show ?thesis by (simp add: as_completed.simps[of ps])
    next
      case (Cons k sched')
      define i where "i = k mod length ps"
      have i: "i < length ps" using False by (simp add: i_def)
      have IH: "mset (as_completed (take i ps @ drop (Suc i) ps) sched')
                = mset (take i ps @ drop (Suc i) ps)"
        using "1.IH" False Cons i_def by simp
      have R: "as_completed ps sched = ps ! i # as_completed (take i ps @ drop (Suc i) ps) sched'"
        using False Cons by (simp add: as_completed.simps[of ps] i_def Let_def)
      have "mset ps = mset (take i ps @ ps ! i # drop (Suc i) ps)"
        using id_take_nth_drop[OF i] by simp
      then show ?thesis by (simp add: R IH)
    qed
  qed
qed

lemma length_as_completed: "length (as_completed xs sched) = length xs"
  using mset_as_completed[of xs sched] by (rule mset_eq_length)

lemma set_as_completed: "set (as_completed xs sched) = set xs"
  using mset_as_completed[of xs sched] by (rule mset_eq_setD)

lemma enumerate_nth: "enumerate 0 links = map (\<lambda>j. (j, links ! j)) [0..<length links]"
  by (rule nth_equalityI) (simp_all add: nth_enumerate_eq)

lemma distinct_futures: "distinct (map fst (submit_all browser links))"
proof -
  have "map fst (map fst (submit_all browser links)) = [0..<length links]"
    by (simp add: submit_all_def submit_def enumerate_nth comp_def)
  then have "distinct (map fst (map fst (submit_all browser links)))"
    by simp
  then show ?thesis
    by (simp only: distinct_map[of fst "map fst (submit_all browser links)"])
qed

lemma future_to_link_lookup:
  assumes "j < length links"
  shows "map_of (submit_all browser links) (submit browser j (links ! j)) = Some (links ! j)"
proof -
  have "(j, links ! j) \<in> set (enumerate 0 links)"
    using assms by (simp add: enumerate_nth)
  then have "(submit browser j (links ! j), links ! j) \<in> set (submit_all browser links)"
    unfolding submit_all_def by force
  then show ?thesis
    using distinct_futures by (simp add: map_of_eq_Some_iff)
qed

lemma collect_entries:
  assumes "\<forall>j \<in> set order. j < length links"
  shows "collect (submit_all browser links) (map (\<lambda>j. submit browser j (links ! j)) order) acc
         = Inr (acc @ map (entry browser links) order)"
  using assms
proof (induction order arbitrary: acc)
  case Nil
  then show ?case by simp
next
  case (Cons j order)
  have lk: "map_of (submit_all browser links) (submit browser j (links ! j)) = Some (links ! j)"
    using Cons.prems by (simp add: future_to_link_lookup)
  have out: "(links ! j, outcome (snd (submit browser j (links ! j)))) = entry browser links j"
    by (simp add: entry_def submit_def)
  have "collect (submit_all browser links)
          (map (\<lambda>j. submit browser j (links ! j)) (j # order)) acc
        = collect (submit_all browser links)
          (map (\<lambda>j. submit browser j (links ! j)) order) (acc @ [entry browser links j])"
    by (simp add: lk out)
  also have "\<dots> = Inr ((acc @ [entry browser links j]) @ map (entry browser links) order)"
    using Cons.prems by (intro Cons.IH) simp
  finally show ?case by simp
qed

lemma scrape_all_tweets_entries:
  "scrape_all_tweets browser sched links
   = Inr (map (entry browser links) (completion_order sched (length links)))"
proof -
  have keys: "map fst (submit_all browser links)
              = map (\<lambda>j. submit browser j (links ! j)) [0..<length links]"
    by (simp add: submit_all_def enumerate_nth)
  have order: "as_completed (map fst (submit_all browser links)) sched
               = map (\<lambda>j. submit browser j (links ! j)) (completion_order sched (length links))"
    by (simp only: keys as_completed_map completion_order_def)
  have bound: "\<forall>j \<in> set (completion_order sched (length links)). j < length links"
    by (simp add: completion_order_def set_as_completed)
  show ?thesis
    using collect_entries[OF bound, of browser "[]"]
    by (simp add: scrape_all_tweets_def order)
qed

section \<open>The extractor\<close>

lemma bind_Inr_iff: "bind m f = Inr y \<longleftrightarrow> (\<exists>x. m = Inr x \<and> f x = Inr y)"
  by (cases m) (simp_all add: bind_def)

lemma getitem_Inr_iff: "getitem v k = Inr x \<longleftrightarrow> (\<exists>d. v = JObj d \<and> map_of d k = Some x)"
  by (cases v) (auto split: option.splits)

lemma py_get_Inr_iff: "py_get v k dflt = Inr x \<longleftrightarrow> (\<exists>d. v = JObj d \<and> x = dict_get d k dflt)"
  by (cases v) auto

lemma tweet_metadata_Inr_iff:
  "tweet_metadata username xhr = Inr md \<longleftrightarrow>
     (\<exists>d0 d1 d2 d3 legacy.
        rsp_json xhr = Inr (JObj d0) \<and> map_of d0 ''data'' = Some (JObj d1) \<and>
        map_of d1 ''tweetResult'' = Some (JObj d2) \<and> map_of d2 ''result'' = Some (JObj d3) \<and>
        map_of d3 ''legacy'' = Some (JObj legacy) \<and>
        md = [(''text'', dict_get legacy ''full_text'' (JStr ''N/A'')),
              (''username'', JStr username),
              (''date'', dict_get legacy ''created_at'' (JStr ''N/A'')),
              (''comment_count'', dict_get legacy ''reply_count'' (JStr ''N/A'')),
              (''like_count'', dict_get legacy ''favorite_count'' (JStr ''N/A'')),
              (''share_count'', dict_get legacy ''retweet_count'' (JStr ''N/A''))])"
  unfolding tweet_metadata_def bind_Inr_iff getitem_Inr_iff py_get_Inr_iff NA_def
  by (rule iffI; clarsimp)

lemma xhr_calls_filter:
  "foldl intercept_response acc responses
   = acc @ filter (\<lambda>r. rsp_resource_type r = ''xhr'') responses"
  by (induction responses arbitrary: acc) (simp_all add: intercept_response_def)

lemma re_search_None_here:
  "re_search pat s = None \<Longrightarrow> p \<le> length s \<Longrightarrow> re_here pat (drop p s) = None"
proof (induction s arbitrary: p)
  case Nil
  then show ?case by simp
next
  case (Cons c cs)
  then show ?case
    by (cases p) (auto split: option.splits)
qed

lemma tweet_url_at_bound: "tweet_url_at url p u \<Longrightarrow> p < length url"
  by (rule ccontr) (simp add: tweet_url_at_def)

lemma extract_username_Inr: "\<exists>u. extract_username_from_url url = Inr u"
proof (cases "re_search username_regex url")
  case None
  then show ?thesis by (simp add: extract_username_from_url_def)
next
  case (Some groups)
  then obtain p where "re_here username_regex (drop p url) = Some groups"
    using re_search_Some by blast
  then obtain u where "groups = [u]"
    unfolding re_here_username_regex_iff by blast
  with Some show ?thesis
    by (simp add: extract_username_from_url_def group_def)
qed

lemma extract_username_first:
  assumes "tweet_url_at url p u" and "\<And>q u'. q < p \<Longrightarrow> \<not> tweet_url_at url q u'"
  shows "extract_username_from_url url = Inr u"
proof -
  have "re_here username_regex (drop q url) = None" if "q < p" for q
    using assms(2)[OF that] re_here_username_regex_iff[of q url]
    by (cases "re_here username_regex (drop q url)") auto
  moreover have "re_here username_regex (drop p url) = Some [u]"
    using assms(1) by (simp add: re_here_username_regex_iff)
  moreover have "p \<le> length url"
    using tweet_url_at_bound[OF assms(1)] by simp
  ultimately have "re_search username_regex url = Some [u]"
    by (rule re_search_first)
  then show ?thesis
    by (simp add: extract_username_from_url_def group_def)
qed

lemma extract_username_absent:
  assumes "\<And>p u. \<not> tweet_url_at url p u"
  shows "extract_username_from_url url = Inr ''N/A''"
proof -
  have "re_here username_regex (drop q url) = None" for q
    using assms re_here_username_regex_iff[of q url]
    by (cases "re_here username_regex (drop q url)") auto
  then have "re_search username_regex url = None"
    by (intro re_search_none)
  then show ?thesis
    by (simp add: extract_username_from_url_def)
qed

lemma tweet_url_at_found:
  assumes "tweet_url_at url p u"
  shows "re_search username_regex url \<noteq> None"
proof
  assume "re_search username_regex url = None"
  then have "re_here username_regex (drop p url) = None"
    using tweet_url_at_bound[OF assms] by (intro re_search_None_here) simp_all
  moreover have "re_here username_regex (drop p url) = Some [u]"
    using assms by (simp add: re_here_username_regex_iff)
  ultimately show False
    by simp
qed

lemma alice_at: "tweet_url_at ''https://x.com/alice/status/12345'' 0 ''alice''"
  unfolding tweet_url_at_def
  by (intro exI[of _ "''12345''"] exI[of _ "[]"]) (simp add: is_word_def is_digit_def)

lemma alice_code: "extract_username_from_url ''https://x.com/alice/status/12345'' = Inr ''alice''"
  by code_simp

lemma not_a_link_code: "re_search username_regex ''not a link'' = None"
  by code_simp

text \<open>
  Claim C7. \<open>extract_username_from_url\<close> returns for every string and never raises. When
  the address pattern occurs in the string, the result is the \<open>\w+\<close> segment between the
  host and \<open>/status/\<close> of its leftmost occurrence; when it occurs nowhere, the result is
  \<open>N/A\<close>. For \<open>https://x.com/alice/status/12345\<close> the result is \<open>alice\<close>.
\<close>

theorem extract_username_from_url_total:
  "(\<exists>u. extract_username_from_url url = Inr u) \<and>
   (\<forall>p u. tweet_url_at url p u \<and> (\<forall>q u'. q < p \<longrightarrow> \<not> tweet_url_at url q u')
       \<longrightarrow> extract_username_from_url url = Inr u) \<and>
   ((\<forall>p u. \<not> tweet_url_at url p u) \<longrightarrow> extract_username_from_url url = Inr ''N/A'') \<and>
   extract_username_from_url ''https://x.com/alice/status/12345'' = Inr ''alice''"
proof (intro conjI allI impI)
  show "\<exists>u. extract_username_from_url url = Inr u"
    by (rule extract_username_Inr)
next
  fix p u
  assume "tweet_url_at url p u \<and> (\<forall>q u'. q < p \<longrightarrow> \<not> tweet_url_at url q u')"
  then show "extract_username_from_url url = Inr u"
    by (intro extract_username_first[of url p u]) blast+
next
  assume "\<forall>p u. \<not> tweet_url_at url p u"
  then show "extract_username_from_url url = Inr ''N/A''"
    by (intro extract_username_absent) blast
next
  show "extract_username_from_url ''https://x.com/alice/status/12345'' = Inr ''alice''"
    using extract_username_first[OF alice_at] by simp
qed

theorem extract_username_from_url_total_witness:
  "tweet_url_at ''https://x.com/alice/status/12345'' 0 ''alice'' \<and>
   extract_username_from_url ''https://x.com/alice/status/12345'' = Inr ''alice'' \<and>
   re_search username_regex ''not a link'' = None \<and>
   extract_username_from_url ''not a link'' = Inr ''N/A''"
proof -
  have absent: "\<forall>p u. \<not> tweet_url_at ''not a link'' p u"
    using tweet_url_at_found not_a_link_code by blast
  show ?thesis
    using extract_username_from_url_total[of "''https://x.com/alice/status/12345''"]
      extract_username_from_url_total[of "''not a link''"] alice_at absent not_a_link_code
    by blast
qed


lemma scrape_page_error: "\<exists>e'. scrape_tweet_metadata url (Inl e) = Inl e'"
  using extract_username_Inr[of url] by (auto simp: scrape_tweet_metadata_def bind_def)

lemma scrape_no_match:
  assumes "extract_username_from_url url = Inr username"
    and "filter has_marker (foldl intercept_response [] responses) = []"
  shows "scrape_tweet_metadata url (Inr responses) = Inr (default_metadata username)"
  using assms unfolding has_marker_def[abs_def]
  by (simp add: scrape_tweet_metadata_def bind_def)

lemma scrape_first_match:
  assumes "extract_username_from_url url = Inr username"
    and "filter has_marker (foldl intercept_response [] responses) = xhr # later"
  shows "scrape_tweet_metadata url (Inr responses) = tweet_metadata username xhr"
  using assms unfolding has_marker_def[abs_def]
  by (simp add: scrape_tweet_metadata_def bind_def)

lemma scrape_keys:
  assumes "scrape_tweet_metadata url page = Inr md"
  shows "map fst md = metadata_keys"
proof -
  obtain username where u: "extract_username_from_url url = Inr username"
    using extract_username_Inr by blast
  obtain responses where p: "page = Inr responses"
    using assms u by (cases page) (simp_all add: scrape_tweet_metadata_def bind_def)
  show ?thesis
  proof (cases "filter has_marker (foldl intercept_response [] responses)")
    case Nil
    then show ?thesis
      using assms scrape_no_match[OF u Nil] p
      by (auto simp: default_metadata_def metadata_keys_def)
  next
    case (Cons xhr later)
    then have "tweet_metadata username xhr = Inr md"
      using assms scrape_first_match[OF u Cons] p by simp
    then show ?thesis
      unfolding tweet_metadata_Inr_iff by (auto simp: metadata_keys_def)
  qed
qed


lemma outcome_not_fallback:
  "outcome (scrape_tweet_metadata url page) \<noteq> [(''error'', JStr ''Could not scrape'')]"
proof (cases "scrape_tweet_metadata url page")
  case (Inl e)
  then show ?thesis by (simp add: outcome_def)
next
  case (Inr md)
  then have "map fst md = metadata_keys"
    by (rule scrape_keys)
  then show ?thesis
    using Inr by (auto simp: outcome_def metadata_keys_def)
qed

text \<open>
  Claim C4. When none of the responses that the interceptor kept has the marker
  \<open>TweetResultByRestId\<close> in its address, \<open>scrape_tweet_metadata\<close> returns the record whose
  fields are all \<open>N/A\<close> except \<open>username\<close>, which is the name derived from the link; for
  \<open>https://x.com/alice/status/12345\<close> that name is \<open>alice\<close>.
\<close>

theorem no_matching_response_default:
  assumes "filter (\<lambda>f. str_contains ''TweetResultByRestId'' (rsp_url f))
             (foldl intercept_response [] responses) = []"
  shows "(\<exists>username. extract_username_from_url url = Inr username \<and>
            scrape_tweet_metadata url (Inr responses) =
              Inr [(''text'', JStr ''N/A''), (''username'', JStr username),
                   (''date'', JStr ''N/A''), (''comment_count'', JStr ''N/A''),
                   (''like_count'', JStr ''N/A''), (''share_count'', JStr ''N/A'')]) \<and>
         scrape_tweet_metadata ''https://x.com/alice/status/12345'' (Inr responses) =
              Inr [(''text'', JStr ''N/A''), (''username'', JStr ''alice''),
                   (''date'', JStr ''N/A''), (''comment_count'', JStr ''N/A''),
                   (''like_count'', JStr ''N/A''), (''share_count'', JStr ''N/A'')]"
proof -
  have none: "filter has_marker (foldl intercept_response [] responses) = []"
    using assms by (simp add: has_marker_def[abs_def])
  obtain username where u: "extract_username_from_url url = Inr username"
    using extract_username_Inr by blast
  have alice: "extract_username_from_url ''https://x.com/alice/status/12345'' = Inr ''alice''"
    using extract_username_first[OF alice_at] by simp
  show ?thesis
    using u scrape_no_match[OF u none] scrape_no_match[OF alice none]
    by (simp add: default_metadata_def NA_def)
qed

theorem no_matching_response_default_witness:
  "filter (\<lambda>f. str_contains ''TweetResultByRestId'' (rsp_url f))
     (foldl intercept_response []
        [\<lparr>rsp_resource_type = ''xhr'', rsp_url = ''https://api.x.com/1.1/hashflags.json'',
          rsp_json = Inr (JArr [])\<rparr>]) = [] \<and>
   scrape_tweet_metadata ''https://x.com/alice/status/12345''
     (Inr [\<lparr>rsp_resource_type = ''xhr'', rsp_url = ''https://api.x.com/1.1/hashflags.json'',
            rsp_json = Inr (JArr [])\<rparr>]) =
     Inr [(''text'', JStr ''N/A''), (''username'', JStr ''alice''),
          (''date'', JStr ''N/A''), (''comment_count'', JStr ''N/A''),
          (''like_count'', JStr ''N/A''), (''share_count'', JStr ''N/A'')]"
proof -
  have h: "filter (\<lambda>f. str_contains ''TweetResultByRestId'' (rsp_url f))
     (foldl intercept_response []
        [\<lparr>rsp_resource_type = ''xhr'', rsp_url = ''https://api.x.com/1.1/hashflags.json'',
          rsp_json = Inr (JArr [])\<rparr>]) = []"
    by (simp add: intercept_response_def)
  show ?thesis
    using h no_matching_response_default[OF h] by blast
qed

section \<open>The link filter\<close>

lemma filter_row_fold:
  "foldl (\<lambda>csv_writer link. if P link then writerow csv_writer [link] else csv_writer) w row
   = w\<lparr>written := written w @ map (\<lambda>link. [link]) (filter P row)\<rparr>"
  by (induction row arbitrary: w) (simp_all add: writerow_def)

lemma filter_rows_fold:
  "foldl (\<lambda>csv_writer row.
            foldl (\<lambda>csv_writer link. if P link then writerow csv_writer [link] else csv_writer)
                  csv_writer row) w rows
   = w\<lparr>written := written w @ map (\<lambda>link. [link]) (filter P (concat rows))\<rparr>"
  by (induction rows arbitrary: w) (simp_all add: filter_row_fold)

lemma extract_valid_links_eq:
  "extract_valid_links csv_reader =
     \<lparr>delimiter = CHR '','',
      written = map (\<lambda>link. [link])
                  (filter (\<lambda>link. re_match regex link \<noteq> None) (concat csv_reader))\<rparr>"
  by (simp add: extract_valid_links_def filter_rows_fold writer_def)

lemma anchored_last_digit:
  assumes "anchored_tweet_url s"
  shows "is_digit (last s)"
proof -
  obtain u d where s: "s = ''https://x.com/'' @ u @ ''/status/'' @ d"
    and d: "d \<noteq> []" "list_all is_digit d"
    using assms unfolding anchored_tweet_url_def by blast
  have "last s = last d"
    using d(1) by (simp add: s)
  moreover have "last d \<in> set d"
    using d(1) by simp
  ultimately show ?thesis
    using d(2) by (simp add: list_all_iff)
qed











text \<open>The \<open>$\<close> of the pattern also matches just before a final newline: a cell made of
  a tweet address and one newline is written.\<close>

lemma regex_accepts_final_newline:
  "written (extract_valid_links [[''https://x.com/a/status/1'' @ [CHR 0x0A]]])
     = [[''https://x.com/a/status/1'' @ [CHR 0x0A]]] \<and>
   \<not> anchored_tweet_url (''https://x.com/a/status/1'' @ [CHR 0x0A])"
proof
  have "re_match regex (''https://x.com/a/status/1'' @ [CHR 0x0A]) \<noteq> None"
    by code_simp
  then show "written (extract_valid_links [[''https://x.com/a/status/1'' @ [CHR 0x0A]]])
     = [[''https://x.com/a/status/1'' @ [CHR 0x0A]]]"
    by (simp add: extract_valid_links_eq)
next
  show "\<not> anchored_tweet_url (''https://x.com/a/status/1'' @ [CHR 0x0A])"
    using anchored_last_digit[of "''https://x.com/a/status/1'' @ [CHR 0x0A]"] newline_not_digit
    by auto
qed

text \<open>
  Claim C8. Running \<open>extract_valid_links\<close> on the rows it has written gives the same
  writer again, and every link it has written matches the pattern.
\<close>

theorem extract_valid_links_idempotent:
  "extract_valid_links (written (extract_valid_links csv_reader)) = extract_valid_links csv_reader \<and>
   filter (\<lambda>link. re_match regex link \<noteq> None) (concat (written (extract_valid_links csv_reader)))
     = concat (written (extract_valid_links csv_reader))"
  by (simp add: extract_valid_links_eq concat_map_singleton)


section \<open>The result writer\<close>

lemma save_rows_fold:
  "foldl (\<lambda>csv_writer r. writerow csv_writer (f r)) w rs = w\<lparr>written := written w @ map f rs\<rparr>"
  by (induction rs arbitrary: w) (simp_all add: writerow_def)

lemma save_results_to_csv_eq:
  "save_results_to_csv results = \<lparr>delimiter = CHR '';'', written = header # map result_row results\<rparr>"
  unfolding save_results_to_csv_def save_rows_fold by (simp add: writer_def writerow_def)

text \<open>
  Claim C6. \<open>save_results_to_csv\<close> writes, with the semicolon as delimiter, the header
  row and then one row for each result, in the order of the results, whose seven cells
  are the link and the fields \<open>text\<close>, \<open>username\<close>, \<open>date\<close>, \<open>comment_count\<close>,
  \<open>like_count\<close>, \<open>share_count\<close> of the record, \<open>N/A\<close> standing for a field that the
  record does not have; for no result it writes the header row alone.
\<close>

theorem save_results_to_csv_rows:
  "save_results_to_csv results =
     \<lparr>delimiter = CHR '';'',
      written =
        map JStr [''Link'', ''Text'', ''Username'', ''Date'', ''Comment Count'', ''Like Count'',
                  ''Share Count'']
        # map (\<lambda>(link, metadata).
                 [JStr link,
                  dict_get metadata ''text'' (JStr ''N/A''),
                  dict_get metadata ''username'' (JStr ''N/A''),
                  dict_get metadata ''date'' (JStr ''N/A''),
                  dict_get metadata ''comment_count'' (JStr ''N/A''),
                  dict_get metadata ''like_count'' (JStr ''N/A''),
                  dict_get metadata ''share_count'' (JStr ''N/A'')]) results\<rparr> \<and>
   (\<forall>metadata k. map_of metadata k = None \<longrightarrow> dict_get metadata k (JStr ''N/A'') = JStr ''N/A'') \<and>
   (\<forall>metadata k v. map_of metadata k = Some v \<longrightarrow> dict_get metadata k (JStr ''N/A'') = v) \<and>
   save_results_to_csv [] =
     \<lparr>delimiter = CHR '';'',
      written = [map JStr [''Link'', ''Text'', ''Username'', ''Date'', ''Comment Count'',
                           ''Like Count'', ''Share Count'']]\<rparr>"
  by (simp add: save_results_to_csv_eq header_def result_row_def[abs_def] NA_def dict_get_def
      case_prod_unfold)

theorem save_results_to_csv_rows_witness:
  "map_of [(''text'', JStr ''hello''), (''like_count'', JInt 3)] ''date'' = None \<and>
   map_of [(''text'', JStr ''hello''), (''like_count'', JInt 3)] ''like_count'' = Some (JInt 3) \<and>
   save_results_to_csv
     [(''https://x.com/a/status/1'', [(''text'', JStr ''hello''), (''like_count'', JInt 3)])] =
     \<lparr>delimiter = CHR '';'',
      written =
        [[JStr ''Link'', JStr ''Text'', JStr ''Username'', JStr ''Date'', JStr ''Comment Count'',
          JStr ''Like Count'', JStr ''Share Count''],
         [JStr ''https://x.com/a/status/1'', JStr ''hello'', JStr ''N/A'', JStr ''N/A'',
          JStr ''N/A'', JInt 3, JStr ''N/A'']]\<rparr>"
  using save_results_to_csv_rows
    [of "[(''https://x.com/a/status/1'', [(''text'', JStr ''hello''), (''like_count'', JInt 3)])]"]
  by (simp add: dict_get_def)

text \<open>
  Claim C9, as stated, fails for \<open>https://x.com/alice/status/12345\<close>: the file written
  for an error on that link differs from the file written when its page gave no matching
  response, whose row holds the user name \<open>alice\<close>.
\<close>

theorem error_row_counterexample:
  "save_results_to_csv
     [(''https://x.com/alice/status/12345'', outcome (Inl (Raised ''Timeout 30000ms exceeded.'')))]
   \<noteq> save_results_to_csv
     [(''https://x.com/alice/status/12345'',
       outcome (scrape_tweet_metadata ''https://x.com/alice/status/12345'' (Inr [])))]"
proof -
  have "scrape_tweet_metadata ''https://x.com/alice/status/12345'' (Inr [])
        = Inr (default_metadata ''alice'')"
    by (rule scrape_no_match[OF alice_code]) simp
  then show ?thesis
    by (simp add: save_results_to_csv_eq result_row_def dict_get_def outcome_def
        default_metadata_def NA_def)
qed

text \<open>
  Claim C9, as amended. For a result whose record is an error descriptor, the row
  written is the link followed by six \<open>N/A\<close>, whatever the descriptor says. That row is
  the row of a link without matching response exactly when the user name derived from
  the link is itself \<open>N/A\<close>.
\<close>

theorem error_result_row:
  "save_results_to_csv [(link, [(''error'', JStr msg)])] =
     \<lparr>delimiter = CHR '';'',
      written =
        [map JStr [''Link'', ''Text'', ''Username'', ''Date'', ''Comment Count'', ''Like Count'',
                   ''Share Count''],
         [JStr link, JStr ''N/A'', JStr ''N/A'', JStr ''N/A'', JStr ''N/A'', JStr ''N/A'',
          JStr ''N/A'']]\<rparr> \<and>
   (save_results_to_csv [(link, [(''error'', JStr msg)])]
      = save_results_to_csv [(link, default_metadata username)]) = (username = ''N/A'')"
  by (auto simp: save_results_to_csv_eq header_def result_row_def dict_get_def
      default_metadata_def NA_def)



section \<open>The results of the orchestrator\<close>

text \<open>
  Claim C10, as stated, fails where it says that \<open>scrape_tweet_metadata\<close> returns a
  record for every observed response list: when the payload of the first matching
  response has no \<open>data\<close>, the call raises \<open>KeyError\<close> and returns no record.
\<close>

theorem could_not_scrape_counterexample:
  "filter (\<lambda>f. str_contains ''TweetResultByRestId'' (rsp_url f))
     (foldl intercept_response []
        [\<lparr>rsp_resource_type = ''xhr'',
          rsp_url = ''https://x.com/i/api/graphql/TweetResultByRestId'',
          rsp_json = Inr (JObj [(''errors'', JArr [])])\<rparr>])
     = [\<lparr>rsp_resource_type = ''xhr'',
         rsp_url = ''https://x.com/i/api/graphql/TweetResultByRestId'',
         rsp_json = Inr (JObj [(''errors'', JArr [])])\<rparr>] \<and>
   scrape_tweet_metadata ''https://x.com/bob/status/7''
     (Inr [\<lparr>rsp_resource_type = ''xhr'',
            rsp_url = ''https://x.com/i/api/graphql/TweetResultByRestId'',
            rsp_json = Inr (JObj [(''errors'', JArr [])])\<rparr>])
     = Inl (KeyError ''data'')"
proof -
  have m: "str_contains ''TweetResultByRestId'' ''https://x.com/i/api/graphql/TweetResultByRestId''"
    by code_simp
  have u: "extract_username_from_url ''https://x.com/bob/status/7'' = Inr ''bob''"
    by code_simp
  show ?thesis
    using m by (simp add: scrape_tweet_metadata_def bind_def u intercept_response_def
        tweet_metadata_def)
qed

text \<open>
  Claim C10, as amended. Whenever \<open>scrape_tweet_metadata\<close> returns, the record it
  returns is not empty, so the orchestrator records it as it is; and no entry of the
  results of \<open>scrape_all_tweets\<close> is the descriptor \<open>Could not scrape\<close>.
\<close>

theorem could_not_scrape_unreachable:
  "(\<forall>metadata. scrape_tweet_metadata url page = Inr metadata \<longrightarrow>
       metadata \<noteq> [] \<and> outcome (Inr metadata) = metadata) \<and>
   (\<forall>results. scrape_all_tweets browser sched links = Inr results \<longrightarrow>
       (\<forall>r \<in> set results. snd r \<noteq> [(''error'', JStr ''Could not scrape'')]))"
proof -
  have a: "metadata \<noteq> [] \<and> outcome (Inr metadata) = metadata"
    if "scrape_tweet_metadata url page = Inr metadata" for metadata
  proof -
    have "map fst metadata = metadata_keys"
      using that by (rule scrape_keys)
    then have "metadata \<noteq> []"
      by (auto simp: metadata_keys_def)
    then show ?thesis
      by (simp add: outcome_def)
  qed
  have b: "snd r \<noteq> [(''error'', JStr ''Could not scrape'')]"
    if "scrape_all_tweets browser sched links = Inr results" and "r \<in> set results"
    for results r
  proof -
    have "r \<in> entry browser links ` set (completion_order sched (length links))"
      using that by (auto simp: scrape_all_tweets_entries)
    then obtain j where "r = entry browser links j"
      by blast
    then show ?thesis
      by (simp add: entry_def outcome_not_fallback)
  qed
  show ?thesis
    using a b by blast
qed

theorem could_not_scrape_unreachable_witness:
  "scrape_tweet_metadata ''https://x.com/alice/status/12345'' (Inr [])
     = Inr (default_metadata ''alice'') \<and>
   default_metadata ''alice'' \<noteq> [] \<and>
   outcome (Inr (default_metadata ''alice'')) = default_metadata ''alice'' \<and>
   scrape_all_tweets (\<lambda>i link. Inr []) [] [''https://x.com/alice/status/12345'']
     = Inr [(''https://x.com/alice/status/12345'', default_metadata ''alice'')] \<and>
   snd (''https://x.com/alice/status/12345'', default_metadata ''alice'')
     \<noteq> [(''error'', JStr ''Could not scrape'')]"
proof -
  have a: "scrape_tweet_metadata ''https://x.com/alice/status/12345'' (Inr [])
           = Inr (default_metadata ''alice'')"
    by (rule scrape_no_match[OF alice_code]) simp
  have b: "scrape_all_tweets (\<lambda>i link. Inr []) [] [''https://x.com/alice/status/12345'']
           = Inr [(''https://x.com/alice/status/12345'', default_metadata ''alice'')]"
    by (simp add: scrape_all_tweets_entries completion_order_def as_completed.simps entry_def a
        outcome_def default_metadata_def)
  show ?thesis
    using could_not_scrape_unreachable
      [of "''https://x.com/alice/status/12345''" "Inr []" "\<lambda>i link. Inr []" "[]"
          "[''https://x.com/alice/status/12345'']"] a b
    by simp
qed



lemma completion_order_set: "set (completion_order sched n) = {0..<n}"
  by (simp add: completion_order_def set_as_completed)

lemma completion_order_length: "length (completion_order sched n) = n"
  by (simp add: completion_order_def length_as_completed)

text \<open>
  Claim C5. When the task of a link raises, \<open>scrape_all_tweets\<close> still returns; the
  entry at the place where that task completed is the link with the error descriptor
  \<open>Error: \<close> followed by the description of the exception; and, under the same schedule,
  every other entry is what it is with any browser that behaves the same on the other
  tasks.
\<close>

theorem failed_link_is_isolated:
  assumes "i < length links"
    and "scrape_tweet_metadata (links ! i) (browser i (links ! i)) = Inl e"
  shows "\<exists>results. scrape_all_tweets browser sched links = Inr results \<and>
           length results = length links \<and>
           (\<exists>p < length links. completion_order sched (length links) ! p = i \<and>
               results ! p = (links ! i, [(''error'', JStr (''Error: '' @ str_exn e))])) \<and>
           (\<forall>browser'. (\<forall>j. j \<noteq> i \<longrightarrow> browser' j = browser j) \<longrightarrow>
               (\<exists>results'. scrape_all_tweets browser' sched links = Inr results' \<and>
                   length results' = length links \<and>
                   (\<forall>p < length links. completion_order sched (length links) ! p \<noteq> i \<longrightarrow>
                       results' ! p = results ! p)))"
proof -
  let ?order = "completion_order sched (length links)"
  let ?results = "map (entry browser links) ?order"
  have len: "length ?order = length links"
    by (rule completion_order_length)
  have "i \<in> set ?order"
    using assms(1) by (simp add: completion_order_set)
  then obtain p where p: "p < length links" "?order ! p = i"
    using len by (auto simp: in_set_conv_nth)
  have failed: "?results ! p = (links ! i, [(''error'', JStr (''Error: '' @ str_exn e))])"
    using p len assms(2) by (simp add: entry_def outcome_def)
  have others: "\<exists>results'. scrape_all_tweets browser' sched links = Inr results' \<and>
                   length results' = length links \<and>
                   (\<forall>p < length links. ?order ! p \<noteq> i \<longrightarrow> results' ! p = ?results ! p)"
    if same: "\<forall>j. j \<noteq> i \<longrightarrow> browser' j = browser j" for browser'
  proof -
    have "map (entry browser' links) ?order ! q = ?results ! q"
      if "q < length links" "?order ! q \<noteq> i" for q
      using that same len by (simp add: entry_def)
    then show ?thesis
      using len by (intro exI[of _ "map (entry browser' links) ?order"])
        (simp add: scrape_all_tweets_entries)
  qed
  show ?thesis
  proof (intro exI[of _ ?results] conjI)
    show "scrape_all_tweets browser sched links = Inr ?results"
      by (rule scrape_all_tweets_entries)
    show "length ?results = length links"
      using len by simp
    show "\<exists>p < length links. ?order ! p = i \<and>
            ?results ! p = (links ! i, [(''error'', JStr (''Error: '' @ str_exn e))])"
      using p failed by blast
    show "\<forall>browser'. (\<forall>j. j \<noteq> i \<longrightarrow> browser' j = browser j) \<longrightarrow>
            (\<exists>results'. scrape_all_tweets browser' sched links = Inr results' \<and>
                length results' = length links \<and>
                (\<forall>p < length links. ?order ! p \<noteq> i \<longrightarrow> results' ! p = ?results ! p))"
      using others by blast
  qed
qed



theorem failed_link_is_isolated_witness:
  "(0::nat) < length [''https://x.com/a/status/1'', ''https://x.com/b/status/2''] \<and>
   scrape_tweet_metadata ([''https://x.com/a/status/1'', ''https://x.com/b/status/2''] ! 0)
     ((\<lambda>i link. if i = 0 then Inl (Raised ''Timeout 30000ms exceeded.'') else Inr []) 0
        ([''https://x.com/a/status/1'', ''https://x.com/b/status/2''] ! 0))
     = Inl (Raised ''Timeout 30000ms exceeded.'') \<and>
   (\<exists>results.
      scrape_all_tweets
        (\<lambda>i link. if i = 0 then Inl (Raised ''Timeout 30000ms exceeded.'') else Inr [])
        [1] [''https://x.com/a/status/1'', ''https://x.com/b/status/2''] = Inr results \<and>
      length results = length [''https://x.com/a/status/1'', ''https://x.com/b/status/2''] \<and>
      (\<exists>p < length [''https://x.com/a/status/1'', ''https://x.com/b/status/2''].
          results ! p = ([''https://x.com/a/status/1'', ''https://x.com/b/status/2''] ! 0,
                         [(''error'', JStr (''Error: '' @ str_exn (Raised ''Timeout 30000ms exceeded.'')))])))"
proof -
  have h1: "(0::nat) < length [''https://x.com/a/status/1'', ''https://x.com/b/status/2'']"
    by simp
  obtain u where u: "extract_username_from_url ''https://x.com/a/status/1'' = Inr u"
    using extract_username_Inr by blast
  have h2: "scrape_tweet_metadata ([''https://x.com/a/status/1'', ''https://x.com/b/status/2''] ! 0)
     ((\<lambda>i link. if i = 0 then Inl (Raised ''Timeout 30000ms exceeded.'') else Inr []) 0
        ([''https://x.com/a/status/1'', ''https://x.com/b/status/2''] ! 0))
     = Inl (Raised ''Timeout 30000ms exceeded.'')"
    by (simp add: scrape_tweet_metadata_def bind_def u)
  from failed_link_is_isolated
    [of 0 "[''https://x.com/a/status/1'', ''https://x.com/b/status/2'']"
        "\<lambda>i link. if i = 0 then Inl (Raised ''Timeout 30000ms exceeded.'') else Inr []"
        "Raised ''Timeout 30000ms exceeded.''" "[1]", OF h1 h2]
  obtain results where
    r: "scrape_all_tweets
        (\<lambda>i link. if i = 0 then Inl (Raised ''Timeout 30000ms exceeded.'') else Inr [])
        [1] [''https://x.com/a/status/1'', ''https://x.com/b/status/2''] = Inr results"
    and l: "length results = length [''https://x.com/a/status/1'', ''https://x.com/b/status/2'']"
    and p: "\<exists>p < length [''https://x.com/a/status/1'', ''https://x.com/b/status/2''].
          completion_order [1] (length [''https://x.com/a/status/1'', ''https://x.com/b/status/2'']) ! p = 0 \<and>
          results ! p = ([''https://x.com/a/status/1'', ''https://x.com/b/status/2''] ! 0,
                         [(''error'', JStr (''Error: '' @ str_exn (Raised ''Timeout 30000ms exceeded.'')))])"
    by blast
  from p have "\<exists>p < length [''https://x.com/a/status/1'', ''https://x.com/b/status/2''].
          results ! p = ([''https://x.com/a/status/1'', ''https://x.com/b/status/2''] ! 0,
                         [(''error'', JStr (''Error: '' @ str_exn (Raised ''Timeout 30000ms exceeded.'')))])"
    by blast
  with h1 h2 r l show ?thesis
    by blast
qed

section \<open>The first matching response\<close>

lemma kept_response:
  assumes "filter has_marker (foldl intercept_response [] responses) = xhr # later"
  shows "filter has_marker (foldl intercept_response [] [xhr]) = [xhr]"
proof -
  have "xhr \<in> set (filter has_marker (filter (\<lambda>r. rsp_resource_type r = ''xhr'') responses))"
    using assms by (simp add: xhr_calls_filter)
  then show ?thesis
    by (simp add: intercept_response_def)
qed

text \<open>
  Claim C3, as stated, fails when the payload of the first matching response lacks the
  path: the call raises \<open>KeyError\<close> and returns no record.
\<close>

theorem first_match_counterexample:
  "filter (\<lambda>f. str_contains ''TweetResultByRestId'' (rsp_url f))
     (foldl intercept_response []
        [\<lparr>rsp_resource_type = ''xhr'',
          rsp_url = ''https://x.com/i/api/graphql/TweetResultByRestId'',
          rsp_json = Inr (JObj [(''data'', JObj [(''tweetResult'', JObj [])])])\<rparr>])
     = [\<lparr>rsp_resource_type = ''xhr'',
         rsp_url = ''https://x.com/i/api/graphql/TweetResultByRestId'',
         rsp_json = Inr (JObj [(''data'', JObj [(''tweetResult'', JObj [])])])\<rparr>] \<and>
   scrape_tweet_metadata ''https://x.com/alice/status/12345''
     (Inr [\<lparr>rsp_resource_type = ''xhr'',
            rsp_url = ''https://x.com/i/api/graphql/TweetResultByRestId'',
            rsp_json = Inr (JObj [(''data'', JObj [(''tweetResult'', JObj [])])])\<rparr>])
     = Inl (KeyError ''result'')"
proof -
  have m: "str_contains ''TweetResultByRestId'' ''https://x.com/i/api/graphql/TweetResultByRestId''"
    by code_simp
  show ?thesis
    using m by (simp add: scrape_tweet_metadata_def bind_def alice_code intercept_response_def
        tweet_metadata_def)
qed

text \<open>
  Claim C3, as amended. When a kept response has the marker in its address, the result
  of \<open>scrape_tweet_metadata\<close> is the one for the first such response alone. The call
  returns a record exactly when the payload of that response decodes to an object with
  the objects \<open>data\<close>, \<open>tweetResult\<close>, \<open>result\<close>, \<open>legacy\<close> nested in it, and the record
  is then the six fields read from \<open>legacy\<close> at their keys, \<open>N/A\<close> for an absent key, and
  the user name derived from the link; otherwise the call raises.
\<close>

theorem first_matching_response_decides:
  assumes "filter (\<lambda>f. str_contains ''TweetResultByRestId'' (rsp_url f))
             (foldl intercept_response [] responses) = xhr # later"
  shows "scrape_tweet_metadata url (Inr responses) = scrape_tweet_metadata url (Inr [xhr]) \<and>
         (\<forall>metadata. scrape_tweet_metadata url (Inr responses) = Inr metadata \<longleftrightarrow>
            (\<exists>username d0 d1 d2 d3 legacy.
                extract_username_from_url url = Inr username \<and>
                rsp_json xhr = Inr (JObj d0) \<and> map_of d0 ''data'' = Some (JObj d1) \<and>
                map_of d1 ''tweetResult'' = Some (JObj d2) \<and>
                map_of d2 ''result'' = Some (JObj d3) \<and>
                map_of d3 ''legacy'' = Some (JObj legacy) \<and>
                metadata =
                  [(''text'', dict_get legacy ''full_text'' (JStr ''N/A'')),
                   (''username'', JStr username),
                   (''date'', dict_get legacy ''created_at'' (JStr ''N/A'')),
                   (''comment_count'', dict_get legacy ''reply_count'' (JStr ''N/A'')),
                   (''like_count'', dict_get legacy ''favorite_count'' (JStr ''N/A'')),
                   (''share_count'', dict_get legacy ''retweet_count'' (JStr ''N/A''))])) \<and>
         (\<forall>metadata k. map_of metadata k = None \<longrightarrow> dict_get metadata k (JStr ''N/A'') = JStr ''N/A'') \<and>
         (\<forall>metadata k v. map_of metadata k = Some v \<longrightarrow> dict_get metadata k (JStr ''N/A'') = v)"
proof -
  have first: "filter has_marker (foldl intercept_response [] responses) = xhr # later"
    using assms by (simp add: has_marker_def[abs_def])
  obtain username where u: "extract_username_from_url url = Inr username"
    using extract_username_Inr by blast
  have r: "scrape_tweet_metadata url (Inr responses) = tweet_metadata username xhr"
    by (rule scrape_first_match[OF u first])
  have "scrape_tweet_metadata url (Inr [xhr]) = tweet_metadata username xhr"
    by (rule scrape_first_match[OF u kept_response[OF first]])
  then have a: "scrape_tweet_metadata url (Inr responses) = scrape_tweet_metadata url (Inr [xhr])"
    using r by simp
  have b: "scrape_tweet_metadata url (Inr responses) = Inr metadata \<longleftrightarrow>
            (\<exists>username d0 d1 d2 d3 legacy.
                extract_username_from_url url = Inr username \<and>
                rsp_json xhr = Inr (JObj d0) \<and> map_of d0 ''data'' = Some (JObj d1) \<and>
                map_of d1 ''tweetResult'' = Some (JObj d2) \<and>
                map_of d2 ''result'' = Some (JObj d3) \<and>
                map_of d3 ''legacy'' = Some (JObj legacy) \<and>
                metadata =
                  [(''text'', dict_get legacy ''full_text'' (JStr ''N/A'')),
                   (''username'', JStr username),
                   (''date'', dict_get legacy ''created_at'' (JStr ''N/A'')),
                   (''comment_count'', dict_get legacy ''reply_count'' (JStr ''N/A'')),
                   (''like_count'', dict_get legacy ''favorite_count'' (JStr ''N/A'')),
                   (''share_count'', dict_get legacy ''retweet_count'' (JStr ''N/A''))])"
    for metadata
    unfolding r tweet_metadata_Inr_iff u by blast
  show ?thesis
    using a b by (simp add: dict_get_def)
qed

theorem first_matching_response_decides_witness:
  "filter (\<lambda>f. str_contains ''TweetResultByRestId'' (rsp_url f))
     (foldl intercept_response []
        [\<lparr>rsp_resource_type = ''fetch'', rsp_url = ''https://x.com/TweetResultByRestId'',
          rsp_json = Inr JNull\<rparr>,
         \<lparr>rsp_resource_type = ''xhr'', rsp_url = ''https://x.com/TweetResultByRestId'',
          rsp_json = Inr (JObj [(''data'', JObj [(''tweetResult'', JObj [(''result'',
             JObj [(''legacy'', JObj [(''full_text'', JStr ''hi''), (''reply_count'', JInt 3)])])])])])\<rparr>,
         \<lparr>rsp_resource_type = ''xhr'', rsp_url = ''https://x.com/TweetResultByRestId'',
          rsp_json = Inr JNull\<rparr>])
     = \<lparr>rsp_resource_type = ''xhr'', rsp_url = ''https://x.com/TweetResultByRestId'',
          rsp_json = Inr (JObj [(''data'', JObj [(''tweetResult'', JObj [(''result'',
             JObj [(''legacy'', JObj [(''full_text'', JStr ''hi''), (''reply_count'', JInt 3)])])])])])\<rparr>
       # [\<lparr>rsp_resource_type = ''xhr'', rsp_url = ''https://x.com/TweetResultByRestId'',
            rsp_json = Inr JNull\<rparr>] \<and>
   scrape_tweet_metadata ''https://x.com/alice/status/12345''
     (Inr [\<lparr>rsp_resource_type = ''fetch'', rsp_url = ''https://x.com/TweetResultByRestId'',
          rsp_json = Inr JNull\<rparr>,
         \<lparr>rsp_resource_type = ''xhr'', rsp_url = ''https://x.com/TweetResultByRestId'',
          rsp_json = Inr (JObj [(''data'', JObj [(''tweetResult'', JObj [(''result'',
             JObj [(''legacy'', JObj [(''full_text'', JStr ''hi''), (''reply_count'', JInt 3)])])])])])\<rparr>,
         \<lparr>rsp_resource_type = ''xhr'', rsp_url = ''https://x.com/TweetResultByRestId'',
          rsp_json = Inr JNull\<rparr>])
     = Inr [(''text'', JStr ''hi''), (''username'', JStr ''alice''), (''date'', JStr ''N/A''),
            (''comment_count'', JInt 3), (''like_count'', JStr ''N/A''),
            (''share_count'', JStr ''N/A'')]"
proof -
  have m: "str_contains ''TweetResultByRestId'' ''https://x.com/TweetResultByRestId''"
    by code_simp
  have h: "filter (\<lambda>f. str_contains ''TweetResultByRestId'' (rsp_url f))
     (foldl intercept_response []
        [\<lparr>rsp_resource_type = ''fetch'', rsp_url = ''https://x.com/TweetResultByRestId'',
          rsp_json = Inr JNull\<rparr>,
         \<lparr>rsp_resource_type = ''xhr'', rsp_url = ''https://x.com/TweetResultByRestId'',
          rsp_json = Inr (JObj [(''data'', JObj [(''tweetResult'', JObj [(''result'',
             JObj [(''legacy'', JObj [(''full_text'', JStr ''hi''), (''reply_count'', JInt 3)])])])])])\<rparr>,
         \<lparr>rsp_resource_type = ''xhr'', rsp_url = ''https://x.com/TweetResultByRestId'',
          rsp_json = Inr JNull\<rparr>])
     = \<lparr>rsp_resource_type = ''xhr'', rsp_url = ''https://x.com/TweetResultByRestId'',
          rsp_json = Inr (JObj [(''data'', JObj [(''tweetResult'', JObj [(''result'',
             JObj [(''legacy'', JObj [(''full_text'', JStr ''hi''), (''reply_count'', JInt 3)])])])])])\<rparr>
       # [\<lparr>rsp_resource_type = ''xhr'', rsp_url = ''https://x.com/TweetResultByRestId'',
            rsp_json = Inr JNull\<rparr>]"
    using m by (simp add: intercept_response_def)
  have one: "scrape_tweet_metadata ''https://x.com/alice/status/12345''
     (Inr [\<lparr>rsp_resource_type = ''xhr'', rsp_url = ''https://x.com/TweetResultByRestId'',
          rsp_json = Inr (JObj [(''data'', JObj [(''tweetResult'', JObj [(''result'',
             JObj [(''legacy'', JObj [(''full_text'', JStr ''hi''), (''reply_count'', JInt 3)])])])])])\<rparr>])
     = Inr [(''text'', JStr ''hi''), (''username'', JStr ''alice''), (''date'', JStr ''N/A''),
            (''comment_count'', JInt 3), (''like_count'', JStr ''N/A''),
            (''share_count'', JStr ''N/A'')]"
    using m by (simp add: scrape_tweet_metadata_def bind_def alice_code intercept_response_def
        tweet_metadata_def dict_get_def NA_def)
  show ?thesis
    using h one first_matching_response_decides[OF h, of "''https://x.com/alice/status/12345''"]
    by simp
qed

end
